theory Spec2Isabelle
  imports Complex_Main "HOL-Library.AList" "HOL-Library.Sublist"
begin

section \<open>Python values\<close>

text \<open>
  The dashboard keeps everything in dictionaries: a probe outcome is the dict built in
  \<open>check_url_health\<close>, the history maps each URL to a list of such dicts, and the
  persisted files are JSON documents read back as dicts and lists. The model therefore
  works on dynamically typed values. A dict is an association list with string keys in
  insertion order; \<open>AList.update\<close> is the assignment \<open>d[k] = v\<close> (it overwrites in place
  or appends at the end), \<open>map_of\<close> the lookup.

  A \<open>datetime\<close> is the naive (timezone-free) value \<open>datetime.now()\<close> returns.
\<close>

record datetime =
  year :: nat
  month :: nat
  day :: nat
  hour :: nat
  minute :: nat
  second :: nat
  microsecond :: nat

datatype pyval =
    PNone
  | PBool bool
  | PInt int
  | PFloat real
  | PStr string
  | PDatetime datetime
  | PList "pyval list"
  | PDict "(string \<times> pyval) list"

text \<open>
  The exceptions the program meets. Classes that an \<open>except\<close> clause of the source
  names are constructors of their own; a handler catches exactly the constructors it
  lists, and every other exception leaves the function as \<open>Inl\<close>.
  \<open>LocationParseError\<close> is urllib3's, which \<open>requests\<close> passes on unwrapped; it is not
  a \<open>RequestException\<close>. \<open>UnicodeDecodeError\<close>, \<open>RecursionError\<close> and \<open>ValueError\<close> are what
  reading a file can raise besides \<open>IOError\<close> and \<open>JSONDecodeError\<close>.
\<close>

datatype exn =
    RequestException string
  | LocationParseError string
  | JSONDecodeError
  | IOError
  | UnicodeDecodeError
  | RecursionError
  | ValueError
  | TypeError
  | AttributeError
  | KeyError string

text \<open>\<open>r[key]\<close> on a value: only a dict can be subscripted with a string.\<close>

fun py_getitem :: "pyval \<Rightarrow> string \<Rightarrow> exn + pyval" where
  "py_getitem (PDict kvs) key =
     (case map_of kvs key of None \<Rightarrow> Inl (KeyError key) | Some v \<Rightarrow> Inr v)"
| "py_getitem _ key = Inl TypeError"

text \<open>
  A loop body that may raise, run over a list: the first exception ends the loop.
\<close>

fun for_each :: "('a \<Rightarrow> exn + 'b) \<Rightarrow> 'a list \<Rightarrow> exn + 'b list" where
  "for_each f [] = Inr []"
| "for_each f (x # xs) =
     (case f x of
        Inl e \<Rightarrow> Inl e
      | Inr y \<Rightarrow> (case for_each f xs of Inl e \<Rightarrow> Inl e | Inr ys \<Rightarrow> Inr (y # ys)))"

section \<open>The probe: \<open>check_url_health\<close>\<close>

text \<open>
  What the outside world does during one probe: \<open>requests.get\<close> either returns a
  response, of which the code reads only \<open>status_code\<close>, or raises. \<open>elapsed_ms\<close> is the
  number the code computes from its two clock readings,
  \<open>round((end_time - start_time) * 1000, 2)\<close>, and \<open>clock\<close> is what \<open>datetime.now()\<close>
  returns when the outcome is built.
\<close>

datatype http_reply = Response int | Raises exn

record probe_io =
  reply :: http_reply
  elapsed_ms :: real
  clock :: datetime

definition check_url_health :: "string \<Rightarrow> probe_io \<Rightarrow> exn + pyval" where
  "check_url_health url io =
     (case reply io of
        Response status_code \<Rightarrow>
          Inr (PDict
            [(''url'', PStr url),
             (''status'', PStr (if 200 \<le> status_code \<and> status_code < 300 then ''UP'' else ''DOWN'')),
             (''response_time'', PFloat (elapsed_ms io)),
             (''status_code'', PInt status_code),
             (''timestamp'', PDatetime (clock io)),
             (''error'', PNone)])
      | Raises (RequestException e) \<Rightarrow>
          Inr (PDict
            [(''url'', PStr url),
             (''status'', PStr ''DOWN''),
             (''response_time'', PNone),
             (''status_code'', PNone),
             (''timestamp'', PDatetime (clock io)),
             (''error'', PStr e)])
      | Raises e \<Rightarrow> Inl e)"

section \<open>Timestamps as text\<close>

text \<open>
  \<open>save_persisted_data\<close> writes a timestamp with \<open>datetime.isoformat()\<close> and
  \<open>load_persisted_data\<close> reads it back with \<open>datetime.fromisoformat\<close>. Both belong to
  Python's standard library; they are modelled here for naive datetimes.
  \<open>isoformat\<close> prints \<open>YYYY-MM-DDTHH:MM:SS\<close>, followed by \<open>.ffffff\<close> when the
  microsecond is not zero; every field is zero-padded to its width.
\<close>

definition digit :: "nat \<Rightarrow> char" where
  "digit n = char_of (48 + n)"

fun zero_padded :: "nat \<Rightarrow> nat \<Rightarrow> string" where
  "zero_padded 0 n = []"
| "zero_padded (Suc w) n = digit (n div 10 ^ w mod 10) # zero_padded w n"

definition isoformat :: "datetime \<Rightarrow> string" where
  "isoformat d =
     zero_padded 4 (year d) @ ''-'' @ zero_padded 2 (month d) @ ''-'' @ zero_padded 2 (day d)
     @ ''T'' @ zero_padded 2 (hour d) @ '':'' @ zero_padded 2 (minute d) @ '':''
     @ zero_padded 2 (second d)
     @ (if microsecond d = 0 then [] else ''.'' @ zero_padded 6 (microsecond d))"

text \<open>
  A Python \<open>datetime\<close> is always a real calendar instant; the record type is wider, so
  the range checks the constructor makes are a predicate.
\<close>

definition is_leap :: "nat \<Rightarrow> bool" where
  "is_leap y = (y mod 4 = 0 \<and> (y mod 100 \<noteq> 0 \<or> y mod 400 = 0))"

definition days_in_month :: "nat \<Rightarrow> nat \<Rightarrow> nat" where
  "days_in_month y m =
     (if m = 2 then (if is_leap y then 29 else 28)
      else if m = 4 \<or> m = 6 \<or> m = 9 \<or> m = 11 then 30 else 31)"

definition valid_datetime :: "datetime \<Rightarrow> bool" where
  "valid_datetime d =
     (1 \<le> year d \<and> year d \<le> 9999 \<and> 1 \<le> month d \<and> month d \<le> 12
      \<and> 1 \<le> day d \<and> day d \<le> days_in_month (year d) (month d)
      \<and> hour d < 24 \<and> minute d < 60 \<and> second d < 60 \<and> microsecond d < 1000000)"

text \<open>
  \<open>fromisoformat\<close> is modelled on the two shapes \<open>isoformat\<close> produces for a naive
  datetime; \<open>None\<close> stands for \<open>ValueError\<close>. The library accepts further ISO-8601
  spellings, which this program never writes.
\<close>

definition digit_value :: "char \<Rightarrow> nat option" where
  "digit_value c =
     (if 48 \<le> (of_char c :: nat) \<and> (of_char c :: nat) \<le> 57 then Some (of_char c - 48) else None)"

fun digits :: "nat \<Rightarrow> nat \<Rightarrow> string \<Rightarrow> (nat \<times> string) option" where
  "digits 0 acc s = Some (acc, s)"
| "digits (Suc w) acc [] = None"
| "digits (Suc w) acc (c # cs) =
     (case digit_value c of None \<Rightarrow> None | Some v \<Rightarrow> digits w (10 * acc + v) cs)"

fun expect :: "char \<Rightarrow> string \<Rightarrow> string option" where
  "expect c [] = None"
| "expect c (x # xs) = (if x = c then Some xs else None)"

definition fraction :: "string \<Rightarrow> (nat \<times> string) option" where
  "fraction s = (if s = [] then Some (0, []) else Option.bind (expect (CHR ''.'') s) (digits 6 0))"

definition fromisoformat :: "string \<Rightarrow> datetime option" where
  "fromisoformat s0 =
     Option.bind (digits 4 0 s0) (\<lambda>(y, s1).
     Option.bind (expect (CHR ''-'') s1) (\<lambda>s2.
     Option.bind (digits 2 0 s2) (\<lambda>(m, s3).
     Option.bind (expect (CHR ''-'') s3) (\<lambda>s4.
     Option.bind (digits 2 0 s4) (\<lambda>(d, s5).
     Option.bind (expect (CHR ''T'') s5) (\<lambda>s6.
     Option.bind (digits 2 0 s6) (\<lambda>(hh, s7).
     Option.bind (expect (CHR '':'') s7) (\<lambda>s8.
     Option.bind (digits 2 0 s8) (\<lambda>(mm, s9).
     Option.bind (expect (CHR '':'') s9) (\<lambda>s10.
     Option.bind (digits 2 0 s10) (\<lambda>(ss, s11).
     Option.bind (fraction s11) (\<lambda>(us, s12).
       (let dt = \<lparr>year = y, month = m, day = d, hour = hh, minute = mm, second = ss,
                  microsecond = us\<rparr>
        in if s12 = [] \<and> valid_datetime dt then Some dt else None)))))))))))))"

section \<open>The dashboard's state\<close>

text \<open>
  The state is Streamlit's session state (\<open>urls\<close>, \<open>history\<close>, \<open>results\<close>,
  \<open>last_check_time\<close>), the two files \<open>urls.json\<close> and \<open>history.json\<close>, and the
  messages shown to the operator by \<open>st.error\<close> and \<open>st.warning\<close>.

  A file is in one of these states:
  \<^item> \<open>Missing\<close>: \<open>os.path.exists\<close> is false;
  \<^item> \<open>Unreadable\<close>: \<open>open\<close> or the read fails with \<open>IOError\<close>;
  \<^item> \<open>Not_JSON\<close>: the text is not JSON, \<open>json.load\<close> raises \<open>JSONDecodeError\<close>;
  \<^item> \<open>Undecodable\<close>: the bytes are not text in the encoding \<open>open\<close> reads with, the read
    inside \<open>json.load\<close> raises \<open>UnicodeDecodeError\<close>;
  \<^item> \<open>Too_deep\<close>: the JSON is nested deeper than the interpreter's recursion limit,
    \<open>json.load\<close> raises \<open>RecursionError\<close>;
  \<^item> \<open>Huge_integer\<close>: the JSON holds an integer longer than the interpreter's digit
    limit, \<open>json.load\<close> raises \<open>ValueError\<close>;
  \<^item> \<open>Document d\<close>: \<open>json.load\<close> returns \<open>d\<close>.

  The JSON text itself is not modelled: a document is the value \<open>json.load\<close> returns for
  what \<open>json.dump\<close> wrote. Targets are strings in this model (the text input of \<open>run\<close>
  yields strings and \<open>save_persisted_data\<close> writes a list of strings), so the URL file's
  document is either a list of strings or something that is not a list; a URL file whose
  list has an item that is not a string, which the loader would keep as it is, has no
  value here.
\<close>

datatype 'a json_file =
    Missing
  | Unreadable
  | Not_JSON
  | Undecodable
  | Too_deep
  | Huge_integer
  | Document 'a

datatype urls_document = Url_list "string list" | Not_a_list

datatype message =
    Error_saving_URLs
  | Error_saving_history
  | Warning_schema
  | Warning_invalid_URL
  | Warning_exists string

record dashboard =
  urls :: "string list"
  history :: "(string \<times> pyval list) list"
  results :: "(string \<times> pyval) list"
  last_check_time :: "datetime option"
  urls_file :: "urls_document json_file"
  history_file :: "pyval json_file"
  urls_writable :: bool
  history_writable :: bool
  messages :: "message list"

definition report :: "message \<Rightarrow> dashboard \<Rightarrow> dashboard" where
  "report m w = w\<lparr>messages := messages w @ [m]\<rparr>"

section \<open>Persistence: \<open>load_persisted_data\<close> and \<open>save_persisted_data\<close>\<close>

definition default_urls :: "string list" where
  "default_urls =
     [''https://httpbin.org/status/200'',
      ''https://httpbin.org/status/404'',
      ''https://httpbin.org/delay/2'',
      ''https://jsonplaceholder.typicode.com/posts/1'']"

text \<open>
  The first block of \<open>load_persisted_data\<close>. A missing file, an \<open>IOError\<close>, a
  \<open>JSONDecodeError\<close> and a document that is not a list all end in the default list. The
  handler is \<open>except (json.JSONDecodeError, IOError)\<close>: the other exceptions of the read
  leave the function.
\<close>

fun load_urls :: "urls_document json_file \<Rightarrow> exn + string list" where
  "load_urls Missing = Inr default_urls"
| "load_urls Unreadable = Inr default_urls"
| "load_urls Not_JSON = Inr default_urls"
| "load_urls Undecodable = Inl UnicodeDecodeError"
| "load_urls Too_deep = Inl RecursionError"
| "load_urls Huge_integer = Inl ValueError"
| "load_urls (Document (Url_list loaded_urls)) = Inr loaded_urls"
| "load_urls (Document Not_a_list) = Inr default_urls"

text \<open>\<open>for entry in entries\<close>: what iterating a JSON value yields.\<close>

fun py_iter :: "pyval \<Rightarrow> exn + pyval list" where
  "py_iter (PList xs) = Inr xs"
| "py_iter (PStr s) = Inr (map (\<lambda>c. PStr [c]) s)"
| "py_iter (PDict kvs) = Inr (map (\<lambda>(k, v). PStr k) kvs)"
| "py_iter _ = Inl TypeError"

text \<open>
  The body of the inner loop of the loader: \<open>entry.copy()\<close> exists for dicts and lists
  only; a string timestamp that parses becomes a datetime, any other is kept.
\<close>

fun load_entry :: "pyval \<Rightarrow> exn + pyval" where
  "load_entry (PDict kvs) =
     (case map_of kvs ''timestamp'' of
        Some (PStr s) \<Rightarrow>
          (case fromisoformat s of
             Some d \<Rightarrow> Inr (PDict (AList.update ''timestamp'' (PDatetime d) kvs))
           | None \<Rightarrow> Inr (PDict kvs))
      | _ \<Rightarrow> Inr (PDict kvs))"
| "load_entry (PList xs) = (if PStr ''timestamp'' \<in> set xs then Inl TypeError else Inr (PList xs))"
| "load_entry _ = Inl AttributeError"

fun load_history_loop ::
  "(string \<times> pyval) list \<Rightarrow> (string \<times> pyval list) list \<Rightarrow> exn + (string \<times> pyval list) list" where
  "load_history_loop [] processed_history = Inr processed_history"
| "load_history_loop ((url, entries) # rest) processed_history =
     (case py_iter entries of
        Inl e \<Rightarrow> Inl e
      | Inr es \<Rightarrow>
          (case for_each load_entry es of
             Inl e \<Rightarrow> Inl e
           | Inr processed_entries \<Rightarrow>
               load_history_loop rest (AList.update url processed_entries processed_history)))"

text \<open>
  The second block of \<open>load_persisted_data\<close>. Its handler is
  \<open>except (json.JSONDecodeError, IOError)\<close>; the other exceptions of the read, and what
  the loops raise on a malformed document, are neither and leave the function.
\<close>

fun load_history :: "pyval json_file \<Rightarrow> exn + (string \<times> pyval list) list" where
  "load_history Missing = Inr []"
| "load_history Unreadable = Inr []"
| "load_history Not_JSON = Inr []"
| "load_history Undecodable = Inl UnicodeDecodeError"
| "load_history Too_deep = Inl RecursionError"
| "load_history Huge_integer = Inl ValueError"
| "load_history (Document (PDict loaded_history)) =
     (case load_history_loop loaded_history [] of
        Inl e \<Rightarrow> (if e = JSONDecodeError \<or> e = IOError then Inr [] else Inl e)
      | Inr processed_history \<Rightarrow> Inr processed_history)"
| "load_history (Document _) = Inr []"

text \<open>
  The two blocks in sequence. An exception of the first block leaves the session state
  untouched; one of the second comes after the target list was set.
\<close>

definition load_persisted_data :: "dashboard \<Rightarrow> exn option \<times> dashboard" where
  "load_persisted_data w =
     (case load_urls (urls_file w) of
        Inl e \<Rightarrow> (Some e, w)
      | Inr loaded_urls \<Rightarrow>
          (let w1 = w\<lparr>urls := loaded_urls\<rparr> in
           case load_history (history_file w1) of
             Inl e \<Rightarrow> (Some e, w1)
           | Inr h \<Rightarrow> (None, w1\<lparr>history := h\<rparr>)))"

text \<open>The body of the inner loop of the saver.\<close>

fun save_entry :: "pyval \<Rightarrow> exn + pyval" where
  "save_entry (PDict kvs) =
     (case map_of kvs ''timestamp'' of
        Some (PDatetime d) \<Rightarrow> Inr (PDict (AList.update ''timestamp'' (PStr (isoformat d)) kvs))
      | _ \<Rightarrow> Inr (PDict kvs))"
| "save_entry (PList xs) = (if PStr ''timestamp'' \<in> set xs then Inl TypeError else Inr (PList xs))"
| "save_entry _ = Inl AttributeError"

fun save_history_loop ::
  "(string \<times> pyval list) list \<Rightarrow> (string \<times> pyval list) list \<Rightarrow> exn + (string \<times> pyval list) list" where
  "save_history_loop [] history_to_save = Inr history_to_save"
| "save_history_loop ((url, entries) # rest) history_to_save =
     (case for_each save_entry entries of
        Inl e \<Rightarrow> Inl e
      | Inr serialized_entries \<Rightarrow>
          save_history_loop rest (AList.update url serialized_entries history_to_save))"

text \<open>\<open>json.dump\<close> accepts every value of the model but a datetime.\<close>

fun json_serializable :: "pyval \<Rightarrow> bool" where
  "json_serializable (PDatetime d) = False"
| "json_serializable (PList xs) = list_all json_serializable xs"
| "json_serializable (PDict kvs) = list_all json_serializable (map snd kvs)"
| "json_serializable _ = True"

text \<open>
  \<open>save_persisted_data\<close>. Each file has its own \<open>try\<close> with \<open>except IOError\<close>, which
  reports and goes on. When a file cannot be opened for writing it keeps its content.
  A \<open>TypeError\<close> of \<open>json.dump\<close> comes after the file was opened and truncated, so what
  is left is not JSON, and the exception leaves the function.
\<close>

definition save_persisted_data :: "dashboard \<Rightarrow> exn option \<times> dashboard" where
  "save_persisted_data w =
     (let w1 = (if urls_writable w then w\<lparr>urls_file := Document (Url_list (urls w))\<rparr>
                else report Error_saving_URLs w) in
      case save_history_loop (history w1) [] of
        Inl e \<Rightarrow> (Some e, w1)
      | Inr history_to_save \<Rightarrow>
          if \<not> history_writable w1 then (None, report Error_saving_history w1)
          else
            (let doc = PDict (map (\<lambda>(url, entries). (url, PList entries)) history_to_save) in
             if json_serializable doc then (None, w1\<lparr>history_file := Document doc\<rparr>)
             else (Some TypeError, w1\<lparr>history_file := Not_JSON\<rparr>)))"

section \<open>The orchestrator: \<open>check_all_urls\<close>\<close>

text \<open>
  The three statements that store one outcome: create the log when the URL has none,
  append, and keep the last 100 entries when there are more (\<open>xs[-100:]\<close>).
\<close>

definition log_of :: "(string \<times> pyval list) list \<Rightarrow> string \<Rightarrow> pyval list" where
  "log_of h url = (case map_of h url of None \<Rightarrow> [] | Some entries \<Rightarrow> entries)"

definition store_in_history ::
  "string \<Rightarrow> pyval \<Rightarrow> (string \<times> pyval list) list \<Rightarrow> (string \<times> pyval list) list" where
  "store_in_history url result h =
     (let h1 = (if map_of h url = None then AList.update url [] h else h);
          h2 = AList.update url (log_of h1 url @ [result]) h1
      in if length (log_of h2 url) > 100
         then AList.update url (drop (length (log_of h2 url) - 100) (log_of h2 url)) h2
         else h2)"

text \<open>
  The loop over \<open>st.session_state.urls\<close>. The \<open>i\<close>-th probe of the run meets the world
  \<open>net i\<close>. The history is session state and keeps what was stored before a probe
  raised; the local dict \<open>results\<close> (here \<open>rs\<close>) reaches the session state only when
  the loop is over.
\<close>

fun check_loop ::
  "(nat \<Rightarrow> probe_io) \<Rightarrow> nat \<Rightarrow> string list \<Rightarrow> (string \<times> pyval) list \<Rightarrow>
   (string \<times> pyval list) list \<Rightarrow> exn option \<times> (string \<times> pyval) list \<times> (string \<times> pyval list) list" where
  "check_loop net i [] rs h = (None, rs, h)"
| "check_loop net i (url # rest) rs h =
     (case check_url_health url (net i) of
        Inl e \<Rightarrow> (Some e, rs, h)
      | Inr result \<Rightarrow>
          check_loop net (Suc i) rest (AList.update url result rs)
            (store_in_history url result h))"

definition check_all_urls ::
  "(nat \<Rightarrow> probe_io) \<Rightarrow> datetime \<Rightarrow> dashboard \<Rightarrow> (exn + (string \<times> pyval) list) \<times> dashboard" where
  "check_all_urls net now w =
     (case check_loop net 0 (urls w) [] (history w) of
        (Some e, rs, h) \<Rightarrow> (Inl e, w\<lparr>history := h\<rparr>)
      | (None, rs, h) \<Rightarrow>
          (case save_persisted_data (w\<lparr>history := h, results := rs, last_check_time := Some now\<rparr>) of
             (Some e, w') \<Rightarrow> (Inl e, w')
           | (None, w') \<Rightarrow> (Inr rs, w')))"

section \<open>The aggregator: \<open>get_status_summary\<close>\<close>

record summary =
  total :: nat
  up :: nat
  down :: nat

text \<open>A dict comprehension: the items are assigned one after the other.\<close>

definition dict_of :: "(string \<times> 'v) list \<Rightarrow> (string \<times> 'v) list" where
  "dict_of items = fold (\<lambda>(k, v) d. AList.update k v d) items []"

definition get_status_summary :: "dashboard \<Rightarrow> exn + summary" where
  "get_status_summary w =
     (let n = (if urls w \<noteq> [] then length (urls w) else 0) in
      if results w = [] then Inr \<lparr>total = n, up = 0, down = n\<rparr>
      else
        (let active_results = dict_of (filter (\<lambda>(url, result). url \<in> set (urls w)) (results w)) in
         case for_each (\<lambda>r. py_getitem r ''status'') (map snd active_results) of
           Inl e \<Rightarrow> Inl e
         | Inr statuses \<Rightarrow>
             (let up_count = length (filter (\<lambda>s. s = PStr ''UP'') statuses);
                  down_count = length (filter (\<lambda>s. s = PStr ''DOWN'') statuses);
                  checked_urls = set (map fst active_results);
                  unchecked_count = length (filter (\<lambda>url. url \<notin> checked_urls) (urls w))
              in Inr \<lparr>total = n, up = up_count, down = down_count + unchecked_count\<rparr>)))"

section \<open>Adding a target in \<open>run\<close>\<close>

text \<open>
  The part of \<open>run\<close> between the text input and the list of current URLs. \<open>button\<close> tells
  whether "Add URL" was pressed and \<open>new_url\<close> is the content of the text input.
  \<open>st.rerun()\<close> ends the script run; an exception of \<open>save_persisted_data\<close> ends it too.
\<close>

datatype flow = Continue | Rerun | Raised exn

definition has_schema :: "string \<Rightarrow> bool" where
  "has_schema new_url = (prefix ''http://'' new_url \<or> prefix ''https://'' new_url)"

definition add_url :: "bool \<Rightarrow> string \<Rightarrow> dashboard \<Rightarrow> flow \<times> dashboard" where
  "add_url button new_url w =
     (let w1 = (if new_url \<noteq> [] \<and> \<not> has_schema new_url then report Warning_schema w else w) in
      if button \<and> new_url \<noteq> [] then
        if new_url \<notin> set (urls w1) then
          if \<not> has_schema new_url then (Continue, report Warning_invalid_URL w1)
          else
            (case save_persisted_data (w1\<lparr>urls := urls w1 @ [new_url]\<rparr>) of
               (Some e, w2) \<Rightarrow> (Raised e, w2)
             | (None, w2) \<Rightarrow> (Rerun, w2))
        else (Continue, report (Warning_exists new_url) w1)
      else (Continue, w1))"

section \<open>Well-formed states and a sample run\<close>

text \<open>
  A snapshot value as the aggregator needs it: a dict whose \<open>status\<close> is \<open>"UP"\<close> or
  \<open>"DOWN"\<close>. Every outcome of \<open>check_url_health\<close> is one.
\<close>

definition has_status :: "pyval \<Rightarrow> bool" where
  "has_status r =
     (py_getitem r ''status'' = Inr (PStr ''UP'') \<or> py_getitem r ''status'' = Inr (PStr ''DOWN''))"

text \<open>
  A history entry as the probe produces it: a dict (its keys are unique, as in every
  Python dict) whose \<open>timestamp\<close> is a datetime and whose other fields are JSON values.
\<close>

definition outcome_entry :: "pyval \<Rightarrow> bool" where
  "outcome_entry e =
     (case e of
        PDict kvs \<Rightarrow>
          distinct (map fst kvs)
          \<and> (case map_of kvs ''timestamp'' of Some (PDatetime d) \<Rightarrow> valid_datetime d | _ \<Rightarrow> False)
          \<and> list_all (\<lambda>(k, v). k = ''timestamp'' \<or> json_serializable v) kvs
      | _ \<Rightarrow> False)"

text \<open>
  A state whose save reaches both files: they can be opened for writing, the history is
  a dict (unique keys) and its logs hold outcome entries.
\<close>

definition persistable :: "dashboard \<Rightarrow> bool" where
  "persistable w =
     (urls_writable w \<and> history_writable w \<and> distinct (map fst (history w))
      \<and> list_all (\<lambda>(url, entries). list_all outcome_entry entries) (history w))"

text \<open>What the saver writes for an entry, and for a whole history.\<close>

definition serialized :: "pyval \<Rightarrow> pyval" where
  "serialized e = (case save_entry e of Inr e' \<Rightarrow> e' | Inl x \<Rightarrow> e)"

definition serialized_history :: "(string \<times> pyval list) list \<Rightarrow> (string \<times> pyval list) list" where
  "serialized_history h = map (\<lambda>(url, entries). (url, map serialized entries)) h"

text \<open>
  A sample state: two configured targets, and a stale snapshot and history left from a
  run that checked one of them and a target that was removed since. In the sample run
  the first probe is answered with 200 and every later one times out.
\<close>

definition demo_clock :: datetime where
  "demo_clock = \<lparr>year = 2024, month = 2, day = 29, hour = 23, minute = 59, second = 7,
                   microsecond = 120\<rparr>"

definition demo_net :: "nat \<Rightarrow> probe_io" where
  "demo_net i =
     \<lparr>reply = (if i = 0 then Response 200 else Raises (RequestException ''timed out'')),
      elapsed_ms = 12.5, clock = demo_clock\<rparr>"

definition demo_outcome :: "string \<Rightarrow> pyval" where
  "demo_outcome url =
     PDict [(''url'', PStr url), (''status'', PStr ''UP''), (''response_time'', PFloat 20),
            (''status_code'', PInt 204), (''timestamp'', PDatetime demo_clock), (''error'', PNone)]"

definition demo_dashboard :: dashboard where
  "demo_dashboard =
     \<lparr>urls = [''https://a.example'', ''https://b.example''],
      history = [(''https://gone.example'', [demo_outcome ''https://gone.example'']),
                 (''https://a.example'', [demo_outcome ''https://a.example''])],
      results = [(''https://gone.example'', demo_outcome ''https://gone.example''),
                 (''https://a.example'', demo_outcome ''https://a.example'')],
      last_check_time = Some demo_clock,
      urls_file = Document (Url_list [''https://a.example'']),
      history_file = Not_JSON,
      urls_writable = True,
      history_writable = True,
      messages = []\<rparr>"

section \<open>Properties of the probe\<close>

text \<open>
  C1. Whenever a response is received, the probe returns an outcome whose status is UP
  exactly when the status code lies in [200, 300) and DOWN otherwise, whose
  \<open>status_code\<close> is the received code and whose \<open>error\<close> is \<open>None\<close>; a 404 response gives
  DOWN, 404 and no error.
\<close>

theorem check_url_health_response:
  "\<exists>r. check_url_health url (io\<lparr>reply := Response code\<rparr>) = Inr r
     \<and> py_getitem r ''status'' = Inr (PStr (if 200 \<le> code \<and> code < 300 then ''UP'' else ''DOWN''))
     \<and> (py_getitem r ''status'' = Inr (PStr ''UP'')) = (200 \<le> code \<and> code < 300)
     \<and> py_getitem r ''status_code'' = Inr (PInt code)
     \<and> py_getitem r ''error'' = Inr PNone
     \<and> (\<exists>r404. check_url_health url (io\<lparr>reply := Response 404\<rparr>) = Inr r404
          \<and> py_getitem r404 ''status'' = Inr (PStr ''DOWN'')
          \<and> py_getitem r404 ''status_code'' = Inr (PInt 404)
          \<and> py_getitem r404 ''error'' = Inr PNone)"
  by (simp add: check_url_health_def)

text \<open>
  What the handler of the probe does catch: a \<open>RequestException\<close> of \<open>requests.get\<close>
  (timeout, connection error, invalid URL) becomes the DOWN outcome with no response
  time, no status code and the exception's text as \<open>error\<close>; a response always gives an
  outcome.
\<close>

lemma check_url_health_transport_failure:
  "check_url_health url (io\<lparr>reply := Raises (RequestException msg)\<rparr>) =
     Inr (PDict
       [(''url'', PStr url),
        (''status'', PStr ''DOWN''),
        (''response_time'', PNone),
        (''status_code'', PNone),
        (''timestamp'', PDatetime (clock io)),
        (''error'', PStr msg)])
   \<and> (\<exists>r. check_url_health url (io\<lparr>reply := Raises (RequestException msg)\<rparr>) = Inr r
        \<and> py_getitem r ''status'' = Inr (PStr ''DOWN'')
        \<and> py_getitem r ''response_time'' = Inr PNone
        \<and> py_getitem r ''status_code'' = Inr PNone
        \<and> py_getitem r ''error'' = Inr (PStr msg))
   \<and> (\<exists>r. check_url_health url (io\<lparr>reply := Response code\<rparr>) = Inr r)"
  by (simp add: check_url_health_def)

text \<open>
  What it does not catch: the probe returns an outcome exactly when the reply is a
  response or a \<open>RequestException\<close>; every other exception of \<open>requests.get\<close> leaves
  \<open>check_url_health\<close> as it came.
\<close>

lemma check_url_health_returns_iff:
  "(\<exists>r. check_url_health url io = Inr r)
     = (case reply io of Response code \<Rightarrow> True | Raises (RequestException msg) \<Rightarrow> True
        | Raises e \<Rightarrow> False)"
  by (simp add: check_url_health_def split: http_reply.splits exn.splits)

lemma check_url_health_propagates:
  "(case e of RequestException msg \<Rightarrow> False | _ \<Rightarrow> True)
     \<Longrightarrow> check_url_health url (io\<lparr>reply := Raises e\<rparr>) = Inl e"
  by (cases e) (simp_all add: check_url_health_def)

text \<open>
  C3. The probe is meant to return an outcome for every failed request and never to
  raise. It does not: for the target \<open>http://a..b/\<close>, which the schema check of \<open>run\<close>
  accepts, \<open>requests.get\<close> raises urllib3's \<open>LocationParseError\<close> (the host has an empty
  label). That class is not a \<open>RequestException\<close>, the handler at line 152 lets it pass,
  and \<open>check_url_health\<close> raises it to its caller instead of returning a DOWN outcome.
\<close>

theorem check_url_health_raises_location_parse_error:
  "has_schema ''http://a..b/''
   \<and> check_url_health ''http://a..b/''
        \<lparr>reply = Raises (LocationParseError ''label empty or too long''),
         elapsed_ms = 0, clock = demo_clock\<rparr>
       = Inl (LocationParseError ''label empty or too long'')"
  by (simp add: has_schema_def check_url_health_def)

text \<open>
  Such a probe ends the whole run: \<open>check_all_urls\<close> raises too, the snapshot is the
  one of the run before, and only the targets probed so far have a new history entry.
\<close>

lemma check_all_urls_aborted_by_probe:
  "check_all_urls
     (\<lambda>i. \<lparr>reply = (if i = 0 then Response 200 else Raises (LocationParseError ''label empty or too long'')),
           elapsed_ms = 0, clock = demo_clock\<rparr>)
     demo_clock demo_dashboard
   = (Inl (LocationParseError ''label empty or too long''),
      demo_dashboard\<lparr>history :=
        store_in_history ''https://a.example''
          (PDict [(''url'', PStr ''https://a.example''), (''status'', PStr ''UP''),
                  (''response_time'', PFloat 0), (''status_code'', PInt 200),
                  (''timestamp'', PDatetime demo_clock), (''error'', PNone)])
          (history demo_dashboard)\<rparr>)"
  by (simp add: check_all_urls_def check_url_health_def demo_dashboard_def)

section \<open>Properties of the history store\<close>

lemma map_of_store_other:
  "u \<noteq> url \<Longrightarrow> map_of (store_in_history url r h) u = map_of h u"
  by (simp add: store_in_history_def Let_def AList.update_conv')

lemma map_of_store_same:
  "map_of (store_in_history url r h) url =
     Some (drop (Suc (length (log_of h url)) - 100) (log_of h url @ [r]))"
  by (auto simp add: store_in_history_def Let_def log_of_def AList.update_conv' split: option.splits)

lemma log_of_store_same:
  "log_of (store_in_history url r h) url =
     drop (Suc (length (log_of h url)) - 100) (log_of h url @ [r])"
  by (simp add: log_of_def map_of_store_same)

lemma drop_last_100:
  "drop (Suc (length (drop (length xs - 100) xs)) - 100) (drop (length xs - 100) xs @ [r])
     = drop (length (xs @ [r]) - 100) (xs @ [r])"
proof (cases "length xs \<le> 99")
  case True
  then show ?thesis by simp
next
  case False
  then have "Suc (length xs - 100) = length xs - 99" by arith
  with False show ?thesis by simp
qed

lemma log_of_fold_store:
  "log_of h url = [] \<Longrightarrow>
     log_of (fold (store_in_history url) rs h) url = drop (length rs - 100) rs"
proof (induction rs rule: rev_induct)
  case Nil
  then show ?case by simp
next
  case (snoc r rs)
  then show ?case
    using drop_last_100[of rs r] by (simp add: log_of_store_same)
qed

text \<open>
  C4. Starting from an empty log of a target (none yet, or an empty list), after the
  outcomes \<open>rs\<close> have been stored one after the other the log holds the last
  \<open>min (length rs) 100\<close> of them, oldest first, and has that length. Whenever storing
  an outcome makes a log longer than 100, the entries at the front are dropped and the
  length is 100 again.
\<close>

theorem history_log_keeps_last_100:
  assumes "log_of h url = []"
  shows "log_of (fold (store_in_history url) rs h) url = drop (length rs - min (length rs) 100) rs
       \<and> length (log_of (fold (store_in_history url) rs h) url) = min (length rs) 100
       \<and> (100 < length (log_of h' url @ [r]) \<longrightarrow>
            log_of (store_in_history url r h') url
              = drop (length (log_of h' url @ [r]) - 100) (log_of h' url @ [r])
            \<and> length (log_of (store_in_history url r h') url) = 100)"
proof -
  have "length rs - min (length rs) 100 = length rs - 100" by arith
  then show ?thesis
    using log_of_fold_store[OF assms, of rs] by (auto simp add: log_of_store_same)
qed

theorem history_log_keeps_last_100_witness:
  "log_of [] ''https://a.example'' = []
   \<and> log_of (fold (store_in_history ''https://a.example'') (map PInt [1, 2, 3]) []) ''https://a.example''
       = map PInt [1, 2, 3]
   \<and> length (log_of (fold (store_in_history ''https://a.example'') (replicate 250 PNone) [])
        ''https://a.example'') = 100
   \<and> log_of (store_in_history ''https://a.example'' (PInt 7)
         [(''https://a.example'', replicate 100 PNone)]) ''https://a.example''
       = replicate 99 PNone @ [PInt 7]"
proof -
  have e: "log_of [] ''https://a.example'' = []" by (simp add: log_of_def)
  have l: "log_of [(''https://a.example'', replicate 100 PNone)] ''https://a.example''
             = replicate 100 PNone"
    by (simp add: log_of_def)
  show ?thesis
    using history_log_keeps_last_100[OF e, of "map PInt [1, 2, 3]"
            "[(''https://a.example'', replicate 100 PNone)]" "PInt 7"]
          history_log_keeps_last_100[OF e, of "replicate 250 PNone" "[]" PNone]
    by (simp add: e l)
qed

section \<open>Properties of the orchestrator\<close>

lemma save_keeps_session:
  "urls (snd (save_persisted_data w)) = urls w"
  "history (snd (save_persisted_data w)) = history w"
  "results (snd (save_persisted_data w)) = results w"
  "last_check_time (snd (save_persisted_data w)) = last_check_time w"
  by (auto simp add: save_persisted_data_def Let_def report_def split: sum.splits)

lemma check_loop_history_frame:
  "u \<notin> set us \<Longrightarrow> map_of (snd (snd (check_loop net i us rs h))) u = map_of h u"
  by (induction us arbitrary: i rs h) (auto simp add: map_of_store_other split: sum.splits)

lemma check_loop_results_frame:
  "u \<notin> set us \<Longrightarrow> map_of (fst (snd (check_loop net i us rs h))) u = map_of rs u"
  by (induction us arbitrary: i rs h) (auto simp add: AList.update_conv' split: sum.splits)

lemma check_loop_completes:
  "(\<forall>k < length us. \<exists>r. check_url_health (us ! k) (net (i + k)) = Inr r)
     \<Longrightarrow> fst (check_loop net i us rs h) = None"
proof (induction us arbitrary: i rs h)
  case Nil
  then show ?case by simp
next
  case (Cons url rest)
  from Cons.prems have "\<exists>r. check_url_health url (net i) = Inr r"
    by (metis add.right_neutral length_greater_0_conv list.discI nth_Cons_0)
  then obtain r where r: "check_url_health url (net i) = Inr r" ..
  have "\<forall>k < length rest. \<exists>r. check_url_health (rest ! k) (net (Suc i + k)) = Inr r"
  proof (intro allI impI)
    fix k assume "k < length rest"
    then have "Suc k < length (url # rest)" by simp
    with Cons.prems have "\<exists>r. check_url_health ((url # rest) ! Suc k) (net (i + Suc k)) = Inr r"
      by blast
    then show "\<exists>r. check_url_health (rest ! k) (net (Suc i + k)) = Inr r" by simp
  qed
  from Cons.IH[OF this] show ?case by (simp add: r)
qed



lemma check_loop_coherent:
  "fst (check_loop net i us rs h) = None \<Longrightarrow> u \<in> set us
     \<Longrightarrow> \<exists>r l. map_of (fst (snd (check_loop net i us rs h))) u = Some r
            \<and> map_of (snd (snd (check_loop net i us rs h))) u = Some l \<and> l \<noteq> [] \<and> last l = r"
proof (induction us arbitrary: i rs h)
  case Nil
  then show ?case by simp
next
  case (Cons url rest)
  from Cons.prems(1) obtain r0 where r0: "check_url_health url (net i) = Inr r0"
    by (auto split: sum.splits)
  show ?case
  proof (cases "u \<in> set rest")
    case True
    with Cons.prems r0 show ?thesis
      using Cons.IH[of "Suc i" "AList.update url r0 rs" "store_in_history url r0 h"] by simp
  next
    case False
    with Cons.prems(2) have u: "u = url" by simp
    from False r0 u show ?thesis
      by (simp add: check_loop_results_frame check_loop_history_frame AList.update_conv'
          map_of_store_same)
  qed
qed

text \<open>What a run that got through its loop leaves in the session state.\<close>

lemma check_all_urls_completed:
  assumes "fst (check_loop net 0 (urls w) [] (history w)) = None"
  shows "results (snd (check_all_urls net now w)) = fst (snd (check_loop net 0 (urls w) [] (history w)))"
    and "history (snd (check_all_urls net now w)) = snd (snd (check_loop net 0 (urls w) [] (history w)))"
proof -
  obtain rs h where l: "check_loop net 0 (urls w) [] (history w) = (None, rs, h)"
    using assms by (cases "check_loop net 0 (urls w) [] (history w)") auto
  let ?w1 = "w\<lparr>history := h, results := rs, last_check_time := Some now\<rparr>"
  have "snd (check_all_urls net now w) = snd (save_persisted_data ?w1)"
    by (cases "save_persisted_data ?w1"; cases "fst (save_persisted_data ?w1)")
       (simp_all add: check_all_urls_def l)
  then show "results (snd (check_all_urls net now w)) = fst (snd (check_loop net 0 (urls w) [] (history w)))"
    and "history (snd (check_all_urls net now w)) = snd (snd (check_loop net 0 (urls w) [] (history w)))"
    by (simp_all add: save_keeps_session l)
qed

text \<open>
  One run stores exactly one outcome per configured target: for a duplicate-free list
  the log of the \<open>k\<close>-th target after the run is its log before the run with the
  outcome of the \<open>k\<close>-th probe stored by \<open>store_in_history\<close>.
\<close>

lemma check_loop_stores_once:
  "fst (check_loop net i us rs h) = None \<Longrightarrow> distinct us \<Longrightarrow> k < length us
     \<Longrightarrow> check_url_health (us ! k) (net (i + k)) = Inr r
     \<Longrightarrow> log_of (snd (snd (check_loop net i us rs h))) (us ! k)
           = log_of (store_in_history (us ! k) r h) (us ! k)"
proof (induction us arbitrary: i rs h k)
  case Nil
  then show ?case by simp
next
  case (Cons url rest)
  from Cons.prems(1) obtain r0 where r0: "check_url_health url (net i) = Inr r0"
    by (auto split: sum.splits)
  show ?case
  proof (cases k)
    case 0
    with Cons.prems r0 have "r0 = r" "url \<notin> set rest" by simp_all
    with 0 r0 show ?thesis
      by (simp add: log_of_def check_loop_history_frame)
  next
    case (Suc k')
    with Cons.prems have k': "k' < length rest" and ne: "rest ! k' \<noteq> url"
      and d: "distinct rest" and r: "check_url_health (rest ! k') (net (Suc i + k')) = Inr r"
      by auto
    from Cons.prems(1) r0
    have c: "fst (check_loop net (Suc i) rest (AList.update url r0 rs) (store_in_history url r0 h)) = None"
      by simp
    have "log_of (store_in_history url r0 h) (rest ! k') = log_of h (rest ! k')"
      using ne by (simp add: log_of_def map_of_store_other)
    with Cons.IH[OF c d k' r] Suc r0 show ?thesis
      by (simp add: log_of_store_same)
  qed
qed

lemma check_all_urls_stores_once:
  assumes "\<forall>k < length (urls w). \<exists>r. check_url_health (urls w ! k) (net k) = Inr r"
    and "distinct (urls w)" and "k < length (urls w)"
    and "check_url_health (urls w ! k) (net k) = Inr r"
  shows "log_of (history (snd (check_all_urls net now w))) (urls w ! k)
           = log_of (store_in_history (urls w ! k) r (history w)) (urls w ! k)"
proof -
  from assms(1) have c: "fst (check_loop net 0 (urls w) [] (history w)) = None"
    using check_loop_completes[of "urls w" net 0] by simp
  from check_loop_stores_once[OF c assms(2) assms(3), of r] assms(4) show ?thesis
    by (simp add: check_all_urls_completed(2)[OF c])
qed

lemma demo_probes_return: "\<exists>r. check_url_health url (demo_net k) = Inr r"
  by (simp add: demo_net_def check_url_health_def)



text \<open>
  C9. A run leaves the history log of every target that is not in the configured list
  as it was: present or absent as before, with the same entries. This holds for every
  run, also for one that a probe's exception ends early.
\<close>

theorem check_all_urls_history_frame:
  assumes "url \<notin> set (urls w)"
  shows "map_of (history (snd (check_all_urls net now w))) url = map_of (history w) url"
proof -
  obtain e rs h where l: "check_loop net 0 (urls w) [] (history w) = (e, rs, h)"
    by (cases "check_loop net 0 (urls w) [] (history w)") auto
  have h: "map_of h url = map_of (history w) url"
    using check_loop_history_frame[OF assms, of net 0 "[]" "history w"] by (simp add: l)
  show ?thesis
  proof (cases e)
    case None
    with l have "fst (check_loop net 0 (urls w) [] (history w)) = None" by simp
    from check_all_urls_completed(2)[OF this] h l show ?thesis by simp
  next
    case (Some x)
    with l h show ?thesis by (simp add: check_all_urls_def)
  qed
qed

theorem check_all_urls_history_frame_witness:
  "''https://gone.example'' \<notin> set (urls demo_dashboard)
   \<and> map_of (history (snd (check_all_urls demo_net demo_clock demo_dashboard))) ''https://gone.example''
       = Some [demo_outcome ''https://gone.example'']"
proof -
  have n: "''https://gone.example'' \<notin> set (urls demo_dashboard)"
    by (simp add: demo_dashboard_def)
  from check_all_urls_history_frame[OF n, of demo_net demo_clock] n show ?thesis
    by (simp add: demo_dashboard_def)
qed

text \<open>
  C10. When no probe of the run raises, then right after the run every configured target
  has a snapshot entry and a non-empty history log, and the snapshot entry is the last
  entry of the log.
\<close>

theorem snapshot_is_last_history_entry:
  assumes "\<forall>k < length (urls w). \<exists>r. check_url_health (urls w ! k) (net k) = Inr r"
    and "url \<in> set (urls w)"
  shows "\<exists>r l. map_of (results (snd (check_all_urls net now w))) url = Some r
           \<and> map_of (history (snd (check_all_urls net now w))) url = Some l
           \<and> l \<noteq> [] \<and> last l = r"
proof -
  from assms(1) have c: "fst (check_loop net 0 (urls w) [] (history w)) = None"
    using check_loop_completes[of "urls w" net 0] by simp
  from check_loop_coherent[OF c assms(2)] show ?thesis
    by (simp add: check_all_urls_completed[OF c])
qed

theorem snapshot_is_last_history_entry_witness:
  "''https://a.example'' \<in> set (urls demo_dashboard)
   \<and> (\<exists>r l. map_of (results (snd (check_all_urls demo_net demo_clock demo_dashboard)))
               ''https://a.example'' = Some r
           \<and> map_of (history (snd (check_all_urls demo_net demo_clock demo_dashboard)))
               ''https://a.example'' = Some l
           \<and> l \<noteq> [] \<and> last l = r)"
proof -
  have p: "\<forall>k < length (urls demo_dashboard).
          \<exists>r. check_url_health (urls demo_dashboard ! k) (demo_net k) = Inr r"
    by (simp add: demo_probes_return)
  have m: "''https://a.example'' \<in> set (urls demo_dashboard)"
    by (simp add: demo_dashboard_def)
  from snapshot_is_last_history_entry[OF p m, of demo_clock] m show ?thesis by simp
qed

section \<open>Properties of the aggregator\<close>

lemma check_url_health_has_status: "check_url_health url io = Inr r \<Longrightarrow> has_status r"
  by (auto simp add: check_url_health_def has_status_def
      split: http_reply.splits exn.splits if_splits)

lemma set_update_subset: "set (AList.update k v al) \<subseteq> insert (k, v) (set al)"
  by (induction al) auto

lemma fold_update_distinct:
  "distinct (map fst acc) \<Longrightarrow> distinct (map fst (fold (\<lambda>(k, v) d. AList.update k v d) items acc))"
  by (induction items arbitrary: acc) (auto simp add: AList.distinct_update)

lemma fold_update_keys:
  "fst ` set (fold (\<lambda>(k, v) d. AList.update k v d) items acc) = fst ` set acc \<union> fst ` set items"
proof (induction items arbitrary: acc)
  case Nil
  then show ?case by simp
next
  case (Cons kv items)
  obtain k v where kv: "kv = (k, v)" by (cases kv)
  show ?case
    unfolding kv using Cons.IH[of "AList.update k v acc"]
    by (simp add: AList.dom_update Un_assoc)
qed

lemma fold_update_values:
  "set (fold (\<lambda>(k, v) d. AList.update k v d) items acc) \<subseteq> set acc \<union> set items"
proof (induction items arbitrary: acc)
  case Nil
  then show ?case by simp
next
  case (Cons kv items)
  obtain k v where kv: "kv = (k, v)" by (cases kv)
  have "set (fold (\<lambda>(k, v) d. AList.update k v d) items (AList.update k v acc))
          \<subseteq> set (AList.update k v acc) \<union> set items"
    by (rule Cons.IH)
  also have "\<dots> \<subseteq> set acc \<union> set (kv # items)"
    using set_update_subset[of k v acc] kv by auto
  finally show ?case by (simp add: kv)
qed

lemma dict_of_distinct: "distinct (map fst (dict_of items))"
  by (simp add: dict_of_def fold_update_distinct)

lemma dict_of_keys: "fst ` set (dict_of items) = fst ` set items"
  by (simp add: dict_of_def fold_update_keys)

lemma dict_of_subset: "set (dict_of items) \<subseteq> set items"
  using fold_update_values[of items "[]"] by (simp add: dict_of_def)

lemma statuses_of_outcomes:
  "\<forall>r \<in> set rs. has_status r \<Longrightarrow>
     \<exists>sts. for_each (\<lambda>r. py_getitem r ''status'') rs = Inr sts \<and> length sts = length rs
         \<and> (\<forall>s \<in> set sts. s = PStr ''UP'' \<or> s = PStr ''DOWN'')"
proof (induction rs)
  case Nil
  then show ?case by simp
next
  case (Cons r rs)
  then obtain sts where sts: "for_each (\<lambda>r. py_getitem r ''status'') rs = Inr sts"
    "length sts = length rs" "\<forall>s \<in> set sts. s = PStr ''UP'' \<or> s = PStr ''DOWN''"
    by auto
  from Cons.prems have "has_status r" by simp
  then show ?case using sts by (auto simp add: has_status_def)
qed

lemma up_down_partition:
  "\<forall>s \<in> set sts. s = PStr ''UP'' \<or> s = PStr ''DOWN'' \<Longrightarrow>
     length (filter (\<lambda>s. s = PStr ''UP'') sts) + length (filter (\<lambda>s. s = PStr ''DOWN'') sts)
       = length sts"
  by (induction sts) auto

lemma checked_plus_unchecked:
  assumes "distinct us" and "distinct (map fst a)" and "fst ` set a \<subseteq> set us"
  shows "length a + length (filter (\<lambda>u. u \<notin> set (map fst a)) us) = length us"
proof -
  have "length a = card (fst ` set a)"
    using assms(2) distinct_card[of "map fst a"] by simp
  moreover have "length (filter (\<lambda>u. u \<notin> set (map fst a)) us) = card (set us - fst ` set a)"
  proof -
    have "set (filter (\<lambda>u. u \<notin> set (map fst a)) us) = set us - fst ` set a" by auto
    moreover have "distinct (filter (\<lambda>u. u \<notin> set (map fst a)) us)" using assms(1) by simp
    ultimately show ?thesis using distinct_card by metis
  qed
  moreover have "card (fst ` set a) + card (set us - fst ` set a) = card (set us)"
    using assms(3) by (metis List.finite_set card_Diff_subset card_mono le_add_diff_inverse finite_imageI)
  moreover have "card (set us) = length us" using assms(1) by (simp add: distinct_card)
  ultimately show ?thesis by simp
qed

lemma demo_outcome_has_status: "has_status (demo_outcome url)"
  by (simp add: has_status_def demo_outcome_def)

text \<open>
  C2. For every duplicate-free list of configured targets and every snapshot of probe
  outcomes (empty, stale or overlapping the list only in part), \<open>get_status_summary\<close>
  returns a summary with \<open>up + down = total\<close>, where \<open>total\<close> is the number of
  configured targets.
\<close>

theorem status_summary_adds_up:
  assumes "distinct (urls w)" and "\<forall>r \<in> snd ` set (results w). has_status r"
  shows "\<exists>s. get_status_summary w = Inr s \<and> up s + down s = total s \<and> total s = length (urls w)"
proof (cases "results w = []")
  case True
  then show ?thesis by (simp add: get_status_summary_def Let_def)
next
  case False
  define a where "a = dict_of (filter (\<lambda>(url, result). url \<in> set (urls w)) (results w))"
  have sub: "set a \<subseteq> set (results w)"
    using dict_of_subset[of "filter (\<lambda>(url, result). url \<in> set (urls w)) (results w)"]
    by (auto simp add: a_def)
  have keys: "fst ` set a \<subseteq> set (urls w)"
    by (auto simp add: a_def dict_of_keys)
  have dist: "distinct (map fst a)" by (simp add: a_def dict_of_distinct)
  have "\<forall>r \<in> set (map snd a). has_status r" using sub assms(2) by auto
  from statuses_of_outcomes[OF this] obtain sts where
    sts: "for_each (\<lambda>r. py_getitem r ''status'') (map snd a) = Inr sts"
      "length sts = length a" "\<forall>s \<in> set sts. s = PStr ''UP'' \<or> s = PStr ''DOWN''"
    by auto
  have "length (filter (\<lambda>s. s = PStr ''UP'') sts) + (length (filter (\<lambda>s. s = PStr ''DOWN'') sts)
          + length (filter (\<lambda>u. u \<notin> set (map fst a)) (urls w))) = length (urls w)"
    using up_down_partition[OF sts(3)] sts(2) checked_plus_unchecked[OF assms(1) dist keys]
    by simp
  moreover have "(if urls w \<noteq> [] then length (urls w) else 0) = length (urls w)" by simp
  ultimately show ?thesis
    unfolding get_status_summary_def using False sts(1)
    by (simp add: Let_def a_def[symmetric] del: length_0_conv)
qed

theorem status_summary_adds_up_witness:
  "distinct (urls demo_dashboard)
   \<and> (\<exists>s. get_status_summary demo_dashboard = Inr s \<and> up s + down s = total s \<and> total s = 2)"
proof -
  have d: "distinct (urls demo_dashboard)" by (simp add: demo_dashboard_def)
  have o: "\<forall>r \<in> snd ` set (results demo_dashboard). has_status r"
    by (simp add: demo_dashboard_def demo_outcome_has_status)
  have "length (urls demo_dashboard) = 2" by (simp add: demo_dashboard_def)
  with status_summary_adds_up[OF d o] d show ?thesis by simp
qed

text \<open>
  The list in the session state is a Python list, and the loader takes any list found in
  the URL file. A list that names a target twice is counted twice in \<open>total\<close> and once in
  the snapshot, which is why the theorem above asks for a duplicate-free list.
\<close>

lemma status_summary_duplicate_target:
  "get_status_summary
     (demo_dashboard\<lparr>urls := [''https://a.example'', ''https://a.example'']\<rparr>)
   = Inr \<lparr>total = 2, up = 1, down = 0\<rparr>"
  by (simp add: get_status_summary_def demo_dashboard_def demo_outcome_def dict_of_def Let_def)

section \<open>Properties of the persistence\<close>

lemma digit_value_digit: "n < 10 \<Longrightarrow> digit_value (digit n) = Some n"
  by (simp add: digit_value_def digit_def)

lemma digits_zero_padded:
  "digits w acc (zero_padded w n @ rest) = Some (acc * 10 ^ w + n mod 10 ^ w, rest)"
proof (induction w arbitrary: acc)
  case 0
  then show ?case by simp
next
  case (Suc w)
  have "n mod (10 ^ w * 10) = 10 ^ w * (n div 10 ^ w mod 10) + n mod 10 ^ w"
    by (rule mod_mult2_eq)
  then show ?case
    using Suc[of "10 * acc + n div 10 ^ w mod 10"]
    by (simp add: digit_value_digit algebra_simps)
qed

lemma digits_field:
  "n < 10 ^ w \<Longrightarrow> digits w 0 (zero_padded w n @ rest) = Some (n, rest)"
  by (simp add: digits_zero_padded)

lemma fraction_microsecond:
  "us < 1000000 \<Longrightarrow>
     fraction (if us = 0 then [] else ''.'' @ zero_padded 6 us) = Some (us, [])"
  using digits_field[of us 6 "[]"] by (simp add: fraction_def)

text \<open>Reading back what \<open>isoformat\<close> printed gives the datetime it was printed from.\<close>

lemma fromisoformat_isoformat:
  assumes "valid_datetime d"
  shows "fromisoformat (isoformat d) = Some d"
proof -
  from assms have b: "year d < 10 ^ 4" "month d < 10 ^ 2" "day d < 10 ^ 2" "hour d < 10 ^ 2"
    "minute d < 10 ^ 2" "second d < 10 ^ 2" "microsecond d < 1000000"
    by (auto simp add: valid_datetime_def days_in_month_def split: if_splits)
  have d: "\<lparr>year = year d, month = month d, day = day d, hour = hour d, minute = minute d,
      second = second d, microsecond = microsecond d\<rparr> = d"
    by (cases d) simp
  show ?thesis
    unfolding fromisoformat_def isoformat_def
    using assms
    by (simp add: d digits_field[OF b(1)] digits_field[OF b(2)] digits_field[OF b(3)]
        digits_field[OF b(4)] digits_field[OF b(5)] digits_field[OF b(6)]
        fraction_microsecond[OF b(7)] del: zero_padded.simps)
qed

lemma in_update_distinct:
  "distinct (map fst al) \<Longrightarrow> (k', v') \<in> set (AList.update k v al)
     \<Longrightarrow> (k' = k \<and> v' = v) \<or> (k' \<noteq> k \<and> (k', v') \<in> set al)"
  by (induction al) (force split: if_splits)+

lemma update_new_key: "k \<notin> fst ` set al \<Longrightarrow> AList.update k v al = al @ [(k, v)]"
  by (induction al) auto

lemma outcome_entry_saved:
  assumes "outcome_entry e"
  shows "save_entry e = Inr (serialized e)" and "json_serializable (serialized e)"
    and "load_entry (serialized e) = Inr e"
proof -
  from assms obtain kvs where e: "e = PDict kvs"
    by (cases e) (simp_all add: outcome_entry_def)
  from assms e have dist: "distinct (map fst kvs)"
    and rest: "list_all (\<lambda>(k, v). k = ''timestamp'' \<or> json_serializable v) kvs"
    and c: "(case map_of kvs ''timestamp'' of Some (PDatetime d) \<Rightarrow> valid_datetime d | _ \<Rightarrow> False)"
    by (simp_all add: outcome_entry_def)
  from c obtain d where ts: "map_of kvs ''timestamp'' = Some (PDatetime d)" and d: "valid_datetime d"
    by (cases "map_of kvs ''timestamp''"; cases "the (map_of kvs ''timestamp'')") simp_all
  have s: "serialized e = PDict (AList.update ''timestamp'' (PStr (isoformat d)) kvs)"
    by (simp add: serialized_def e ts)
  show "save_entry e = Inr (serialized e)" by (simp add: s) (simp add: e ts)
  show "json_serializable (serialized e)"
  proof -
    have "json_serializable v'"
      if "(k', v') \<in> set (AList.update ''timestamp'' (PStr (isoformat d)) kvs)" for k' v'
    proof -
      from in_update_distinct[OF dist that] ts rest show ?thesis
        by (auto simp add: list_all_iff dest: map_of_SomeD weak_map_of_SomeI)
    qed
    then show ?thesis by (auto simp add: s list_all_iff)
  qed
  show "load_entry (serialized e) = Inr e"
    unfolding s unfolding e
    by (simp add: AList.update_conv' fromisoformat_isoformat[OF d] AList.update_triv[OF ts])
qed

lemma entries_saved:
  assumes "list_all outcome_entry es"
  shows "for_each save_entry es = Inr (map serialized es)"
    and "list_all json_serializable (map serialized es)"
    and "for_each load_entry (map serialized es) = Inr es"
  using assms by (induction es) (simp_all add: outcome_entry_saved)

lemma save_history_loop_ok:
  assumes "list_all (\<lambda>(url, entries). list_all outcome_entry entries) h"
    and "distinct (map fst h)" and "fst ` set acc \<inter> fst ` set h = {}"
  shows "save_history_loop h acc = Inr (acc @ serialized_history h)"
  using assms
proof (induction h arbitrary: acc)
  case Nil
  then show ?case by (simp add: serialized_history_def)
next
  case (Cons p h)
  obtain url entries where p: "p = (url, entries)" by (cases p)
  from Cons.prems p have es: "list_all outcome_entry entries" by simp
  from Cons.prems p have new: "url \<notin> fst ` set acc" by auto
  from Cons.prems p have disj: "fst ` set (acc @ [(url, map serialized entries)]) \<inter> fst ` set h = {}"
    by auto
  from Cons.prems have "list_all (\<lambda>(url, entries). list_all outcome_entry entries) h"
    "distinct (map fst h)" by simp_all
  from Cons.IH[OF this disj] show ?case
    by (simp add: p entries_saved(1)[OF es] update_new_key[OF new] serialized_history_def)
qed


lemma serialized_history_json:
  assumes "list_all (\<lambda>(url, entries). list_all outcome_entry entries) h"
  shows "json_serializable (PDict (map (\<lambda>(url, entries). (url, PList entries)) (serialized_history h)))"
  using assms
  by (induction h) (auto simp add: serialized_history_def entries_saved(2))

text \<open>The outcomes of the probe are outcome entries, whenever the clock shows a date.\<close>

lemma check_url_health_outcome_entry:
  "valid_datetime (clock io) \<Longrightarrow> check_url_health url io = Inr r \<Longrightarrow> outcome_entry r"
  by (auto simp add: check_url_health_def outcome_entry_def
      split: http_reply.splits exn.splits)

lemma demo_clock_valid: "valid_datetime demo_clock"
  by (simp add: valid_datetime_def demo_clock_def days_in_month_def is_leap_def)

lemma demo_dashboard_persistable: "persistable demo_dashboard"
  by (simp add: persistable_def demo_dashboard_def outcome_entry_def demo_outcome_def
      demo_clock_valid)



text \<open>
  What the handlers of the loader do catch. When the history file's text is not JSON
  (\<open>JSONDecodeError\<close>) or its document is not a JSON object, and the URL file is read
  without an uncaught exception, \<open>load_persisted_data\<close> returns, the history is empty
  and the target list is what the URL file gives.
\<close>

lemma load_with_corrupt_history:
  assumes "history_file w = Not_JSON
           \<or> (\<exists>doc. history_file w = Document doc \<and> (\<forall>items. doc \<noteq> PDict items))"
    and "load_urls (urls_file w) = Inr us"
  shows "load_persisted_data w = (None, w\<lparr>urls := us, history := []\<rparr>)"
proof -
  have h: "load_history (history_file w) = Inr []"
  proof -
    from assms(1) consider "history_file w = Not_JSON"
      | doc where "history_file w = Document doc" "\<forall>items. doc \<noteq> PDict items"
      by blast
    then show ?thesis
    proof cases
      case 1
      then show ?thesis by simp
    next
      case 2
      then show ?thesis by (cases doc) simp_all
    qed
  qed
  with assms(2) show ?thesis
    by (simp add: load_persisted_data_def Let_def)
qed

lemma load_with_corrupt_history_example:
  "load_persisted_data demo_dashboard
     = (None, demo_dashboard\<lparr>urls := [''https://a.example''], history := []\<rparr>)
   \<and> load_persisted_data
        (demo_dashboard\<lparr>urls_file := Not_JSON, history_file := Document (PList [])\<rparr>)
       = (None, demo_dashboard\<lparr>urls_file := Not_JSON, history_file := Document (PList []),
                                urls := default_urls, history := []\<rparr>)"
  by (simp add: load_persisted_data_def demo_dashboard_def)

text \<open>
  What they do not catch: a file whose reading raises anything but \<open>JSONDecodeError\<close> or
  \<open>IOError\<close> makes \<open>load_persisted_data\<close> raise, whichever of the two files it is.
\<close>

lemma load_history_raises_iff_uncaught:
  "(\<forall>items. f \<noteq> Document (PDict items))
     \<Longrightarrow> (\<exists>e. load_history f = Inl e) = (f = Undecodable \<or> f = Too_deep \<or> f = Huge_integer)"
  by (cases f rule: load_history.cases) auto

lemma load_urls_raises_iff_uncaught:
  "(\<exists>e. load_urls f = Inl e) = (f = Undecodable \<or> f = Too_deep \<or> f = Huge_integer)"
  by (cases f rule: load_urls.cases) auto

lemma load_raises_on_undecodable_urls:
  "load_persisted_data (w\<lparr>urls_file := Undecodable\<rparr>)
     = (Some UnicodeDecodeError, w\<lparr>urls_file := Undecodable\<rparr>)"
  by (simp add: load_persisted_data_def)

text \<open>
  C7. A corrupt history file is meant to give an empty history without an exception. It
  does not when the corruption is in the bytes: on a \<open>history.json\<close> that is not text in
  the encoding \<open>open\<close> reads with (the four bytes \<open>ff fe 7b 7d\<close>, say), reading raises
  \<open>UnicodeDecodeError\<close>, which the handler at line 97 does not name, so
  \<open>load_persisted_data\<close> raises to its caller. The target list was loaded before; the
  history is not set at all. A document nested deeper than the recursion limit
  (\<open>RecursionError\<close>) ends the same way.
\<close>

theorem load_raises_on_undecodable_history:
  "load_persisted_data (demo_dashboard\<lparr>history_file := Undecodable\<rparr>)
     = (Some UnicodeDecodeError,
        demo_dashboard\<lparr>history_file := Undecodable, urls := [''https://a.example'']\<rparr>)
   \<and> load_persisted_data (demo_dashboard\<lparr>history_file := Too_deep\<rparr>)
     = (Some RecursionError,
        demo_dashboard\<lparr>history_file := Too_deep, urls := [''https://a.example'']\<rparr>)"
  by (simp add: load_persisted_data_def demo_dashboard_def)

section \<open>Properties of adding a target\<close>

text \<open>
  The accepting path, for comparison: a non-empty URL with a schema that is not yet in
  the list is appended and persisted, whatever follows the schema. \<open>http://a..b/\<close>, the
  target on which the probe raises, gets into the list this way.
\<close>

lemma save_returns: "persistable w \<Longrightarrow> fst (save_persisted_data w) = None"
proof -
  assume p: "persistable w"
  then have wr: "urls_writable w" "history_writable w"
    and dist: "distinct (map fst (history w))"
    and ok: "list_all (\<lambda>(url, entries). list_all outcome_entry entries) (history w)"
    by (simp_all add: persistable_def)
  have saved: "save_history_loop (history w) [] = Inr (serialized_history (history w))"
    using save_history_loop_ok[OF ok dist, of "[]"] by simp
  have json: "list_all json_serializable
      (map snd (map (\<lambda>(url, entries). (url, PList entries)) (serialized_history (history w))))"
    using serialized_history_json[OF ok] by simp
  show ?thesis
    using wr saved json by (simp add: save_persisted_data_def Let_def)
qed

lemma add_url_accepted:
  assumes "new_url \<noteq> []" and "has_schema new_url" and "new_url \<notin> set (urls w)"
    and "persistable w"
  shows "fst (add_url True new_url w) = Rerun
       \<and> urls (snd (add_url True new_url w)) = urls w @ [new_url]"
proof -
  let ?w2 = "w\<lparr>urls := urls w @ [new_url]\<rparr>"
  from assms(4) have "persistable ?w2" by (simp add: persistable_def)
  then have n: "fst (save_persisted_data ?w2) = None" by (rule save_returns)
  have u: "urls (snd (save_persisted_data ?w2)) = urls w @ [new_url]"
    by (simp add: save_keeps_session)
  from assms(1-3) n u show ?thesis
    by (cases "save_persisted_data ?w2") (simp add: add_url_def)
qed

lemma add_url_accepts_empty_host_label:
  "fst (add_url True ''http://a..b/'' demo_dashboard) = Rerun
   \<and> urls (snd (add_url True ''http://a..b/'' demo_dashboard))
       = [''https://a.example'', ''https://b.example'', ''http://a..b/'']"
proof -
  have "''http://a..b/'' \<noteq> []" "has_schema ''http://a..b/''"
    "''http://a..b/'' \<notin> set (urls demo_dashboard)"
    by (simp_all add: has_schema_def demo_dashboard_def)
  from add_url_accepted[OF this demo_dashboard_persistable] show ?thesis
    by (simp add: demo_dashboard_def)
qed

text \<open>
  C8, the claim as written fails on the empty input: the empty string does not start
  with \<open>http://\<close> or \<open>https://\<close>, yet pressing "Add URL" on it reports nothing (the
  guards \<open>and new_url\<close> skip the whole block).
\<close>

theorem add_url_empty_input_unreported:
  "\<not> has_schema [] \<and> add_url True [] demo_dashboard = (Continue, demo_dashboard)
   \<and> messages (snd (add_url True [] demo_dashboard)) = messages demo_dashboard"
  by (simp add: add_url_def has_schema_def)

text \<open>
  C8, amended. Adding a non-empty URL that is already in the configured list, or a
  non-empty one that does not start with \<open>http://\<close> or \<open>https://\<close>, is rejected: the
  script goes on with the same target list, the same history, snapshot and files, and
  at least one warning was reported (the "already exists" warning for a duplicate, the
  "valid URL" warning otherwise, after the schema warning when the schema is missing).
  An empty input changes nothing and reports nothing.
\<close>

theorem add_url_rejected:
  assumes "new_url \<noteq> []" and "new_url \<in> set (urls w) \<or> \<not> has_schema new_url"
  shows "add_url True new_url w =
           (Continue, w\<lparr>messages := messages w
              @ (if has_schema new_url then [] else [Warning_schema])
              @ [if new_url \<in> set (urls w) then Warning_exists new_url else Warning_invalid_URL]\<rparr>)
       \<and> urls (snd (add_url True new_url w)) = urls w
       \<and> messages (snd (add_url True new_url w)) \<noteq> messages w
       \<and> add_url button [] w = (Continue, w)"
  using assms by (auto simp add: add_url_def report_def Let_def)

theorem add_url_rejected_witness:
  "add_url True ''ftp://a.example'' demo_dashboard
     = (Continue, demo_dashboard\<lparr>messages := [Warning_schema, Warning_invalid_URL]\<rparr>)
   \<and> add_url True ''https://a.example'' demo_dashboard
     = (Continue, demo_dashboard\<lparr>messages := [Warning_exists ''https://a.example'']\<rparr>)"
proof -
  have a: "''ftp://a.example'' \<noteq> [] \<and> \<not> has_schema ''ftp://a.example''
           \<and> ''ftp://a.example'' \<notin> set (urls demo_dashboard)"
    by (simp add: has_schema_def demo_dashboard_def)
  have b: "''https://a.example'' \<noteq> [] \<and> has_schema ''https://a.example''
           \<and> ''https://a.example'' \<in> set (urls demo_dashboard)"
    by (simp add: has_schema_def demo_dashboard_def)
  have m: "messages demo_dashboard = []" by (simp add: demo_dashboard_def)
  from add_url_rejected[of "''ftp://a.example''" demo_dashboard] a
    add_url_rejected[of "''https://a.example''" demo_dashboard] b
  show ?thesis by (simp add: m)
qed

end
